theory Spec2Isabelle
  imports
    Main
    "HOL-Library.Sublist"
    "HOL-Library.Char_ord"
    "HOL-Library.List_Lexorder"
    "HOL-Library.Product_Lexorder"
begin

section \<open>Strings\<close>

text \<open>
  Labels, group names and CSV cells are Python \<open>str\<close> values; they are modelled as
  \<open>string\<close>, a character being a code point below 256. \<open>s.strip()\<close> removes the
  leading and trailing characters for which \<open>str.isspace\<close> holds: below 256 these are
  the code points 9..13, 28..32, 133 (next line) and 160 (no-break space).
  \<open>s.upper()\<close> maps \<open>a\<close>..\<open>z\<close> to \<open>A\<close>..\<open>Z\<close>. Python also changes some
  characters above 127: it puts a character above 127 in their place, or, for the sharp s,
  the two letters \<open>SS\<close>. No pattern searched for below holds an \<open>S\<close> or a character
  above 127, so whether a pattern occurs does not depend on them, and \<open>upper_char\<close>
  leaves them alone.
  \<open>(s or "")\<close> is the identity on a string. \<open>t in s\<close> is \<^const>\<open>sublist\<close>,
  \<open>s.startswith(t)\<close> is \<^const>\<open>prefix\<close> and \<open>s.endswith(t)\<close> is \<^const>\<open>suffix\<close>.
\<close>

definition upper_char :: "char \<Rightarrow> char" where
  "upper_char c =
     (case map_of (zip ''abcdefghijklmnopqrstuvwxyz'' ''ABCDEFGHIJKLMNOPQRSTUVWXYZ'') c of
        Some d \<Rightarrow> d
      | None \<Rightarrow> c)"

definition is_space :: "char \<Rightarrow> bool" where
  "is_space c =
     (c \<in> set [CHR 0x09, CHR 0x0A, CHR 0x0B, CHR 0x0C, CHR 0x0D,
                CHR 0x1C, CHR 0x1D, CHR 0x1E, CHR 0x1F, CHR 0x20,
                CHR 0x85, CHR 0xA0])"

definition strip :: "string \<Rightarrow> string" where
  "strip s = rev (dropWhile is_space (rev (dropWhile is_space s)))"

text \<open>\<open>_u(s)\<close>: \<open>(s or "").upper()\<close>.\<close>

definition u_upper :: "string \<Rightarrow> string" where
  "u_upper s = map upper_char s"

text \<open>\<open>norm_group\<close>: strip, then drop a leading \<open>IIIA_\<close>.\<close>

definition norm_group :: "string \<Rightarrow> string" where
  "norm_group g =
     (let x = strip g
      in if prefix ''IIIA_'' x then drop (length ''IIIA_'') x else x)"

section \<open>Packet-type inference\<close>

datatype packet_kind = TAMPER | PC | BASELINE

definition looks_tamper :: "string \<Rightarrow> bool" where
  "looks_tamper s =
     (let x = u_upper s
      in sublist ''WORKING_TAMPER'' x \<or> sublist ''TAMPER'' x)"

definition looks_pc :: "string \<Rightarrow> bool" where
  "looks_pc s =
     (let x = u_upper s
      in sublist ''PC_REEXPORT'' x
         \<or> (sublist ''_PC'' x \<and> sublist ''PACKET'' x)
         \<or> (sublist ''PC_'' x \<and> sublist ''PACKET'' x))"

definition a_type :: "string \<Rightarrow> packet_kind" where
  "a_type a_src =
     (if looks_tamper a_src then TAMPER
      else if looks_pc a_src then PC
      else BASELINE)"

section \<open>Expected-outcome resolver\<close>

text \<open>
  The four \<open>ValueError\<close>s of \<open>determine_expected_match\<close>, in the order in which
  the source raises them.
\<close>

datatype resolve_error =
    Missing_A_src_or_candidate_src
  | Ambiguous_A_is_TAMPER
  | Ambiguous_A_is_PC
  | Ambiguous_BASELINE_arm

type_synonym resolution = "string \<times> string \<times> string"

definition determine_expected_match ::
  "string \<Rightarrow> string \<Rightarrow> string \<Rightarrow> resolve_error + resolution" where
  "determine_expected_match A_src q1 q2 =
     (let a = strip A_src; s1 = strip q1; s2 = strip q2
      in if a = [] \<or> s1 = [] \<or> s2 = [] then Inl Missing_A_src_or_candidate_src
         else
           let a_kind = a_type a;
               c1_t = looks_tamper s1; c2_t = looks_tamper s2;
               c1_pc = looks_pc s1; c2_pc = looks_pc s2
           in if a_kind = TAMPER then
                (if c1_t \<and> \<not> c2_t then
                   Inr (''QMSv5_01'', ''QMSv5_02'', ''A=TAMPER -> match=tamper'')
                 else if c2_t \<and> \<not> c1_t then
                   Inr (''QMSv5_02'', ''QMSv5_01'', ''A=TAMPER -> match=tamper'')
                 else Inl Ambiguous_A_is_TAMPER)
              else if a_kind = PC then
                (if c1_pc \<and> \<not> c2_pc then
                   Inr (''QMSv5_01'', ''QMSv5_02'', ''A=PC -> match=pc'')
                 else if c2_pc \<and> \<not> c1_pc then
                   Inr (''QMSv5_02'', ''QMSv5_01'', ''A=PC -> match=pc'')
                 else if c1_t \<and> \<not> c2_t then
                   Inr (''QMSv5_02'', ''QMSv5_01'', ''A=PC -> match=non-tamper fallback'')
                 else if c2_t \<and> \<not> c1_t then
                   Inr (''QMSv5_01'', ''QMSv5_02'', ''A=PC -> match=non-tamper fallback'')
                 else Inl Ambiguous_A_is_PC)
              else if c1_t \<and> \<not> c2_t then
                Inr (''QMSv5_02'', ''QMSv5_01'', ''A=BASELINE -> match=non-tamper'')
              else if c2_t \<and> \<not> c1_t then
                Inr (''QMSv5_01'', ''QMSv5_02'', ''A=BASELINE -> match=non-tamper'')
              else Inl Ambiguous_BASELINE_arm)"

section \<open>Mapping rows and manual-override fragments\<close>

text \<open>
  A mapping row is the dictionary built by \<open>flatten_map\<close> and
  \<open>parse_pc_override_fragments\<close>: thirteen string-valued entries and the optional
  entry \<open>map_manual_override_flag\<close>, which only the override parser sets.
\<close>

record mapping_row =
  node_scope :: string
  row_group :: string
  arm :: string
  status :: string
  expected_match_candidate :: string
  expected_mismatch_candidate :: string
  rule :: string
  A_src :: string
  QMSv5_01_src :: string
  QMSv5_02_src :: string
  map_job_id :: string
  map_source_file :: string
  map_source_sha256 :: string
  map_manual_override_flag :: "int option"

text \<open>
  One JSON object extracted from the override document, read through
  \<open>a.get("group")\<close>, \<open>a.get("arm")\<close>, \<open>a.get("A_src", "")\<close>,
  \<open>a.get("QMSv5_01_src", "")\<close> and \<open>a.get("QMSv5_02_src", "")\<close>; a missing label
  is the empty string.
\<close>

record arm_fragment =
  frag_group :: string
  frag_arm :: string
  frag_A_src :: string
  frag_QMSv5_01_src :: string
  frag_QMSv5_02_src :: string

type_synonym key = "string \<times> string \<times> string"

text \<open>
  The failures of the merge tool. \<open>Arm_error\<close> is the resolver's error re-raised with
  its context (job id, group, arm and the three raw labels);
  \<open>Comparisons_CSV_has_no_rows\<close> is the exit with status 2 that \<open>main\<close> takes, after
  printing that message, when the comparisons CSV holds no row;
  \<open>Missing_active_blinding_mappings n ks\<close> is the \<open>RuntimeError\<close> whose message holds
  \<open>len(uniq)\<close> and \<open>uniq[:8]\<close>.
\<close>

datatype error =
    Arm_error resolve_error string string string string string string
  | Could_not_extract_PC_override_fragments
  | Conflicting_active_mappings key
  | Comparisons_CSV_has_no_rows
  | Missing_active_blinding_mappings nat "key list"

fun pc_override_rows :: "string \<Rightarrow> string \<Rightarrow> arm_fragment list \<Rightarrow> error + mapping_row list" where
  "pc_override_rows pc_md_path src_sha [] = Inr []"
| "pc_override_rows pc_md_path src_sha (a # frags) =
     (let grp = norm_group (frag_group a);
          arm_v = frag_arm a;
          A = frag_A_src a;
          q1 = frag_QMSv5_01_src a;
          q2 = frag_QMSv5_02_src a
      in case determine_expected_match A q1 q2 of
           Inl e \<Rightarrow> Inl (Arm_error e ''StageIV_Node03_PC_OVERRIDE'' grp arm_v A q1 q2)
         | Inr (exp_match, exp_mismatch, rule_v) \<Rightarrow>
             (case pc_override_rows pc_md_path src_sha frags of
                Inl e \<Rightarrow> Inl e
              | Inr out \<Rightarrow>
                  Inr (\<lparr> node_scope = ''Node03_HVT_A_COMPLETED'',
                         row_group = grp,
                         arm = arm_v,
                         status = ''active'',
                         expected_match_candidate = exp_match,
                         expected_mismatch_candidate = exp_mismatch,
                         rule = rule_v,
                         A_src = A,
                         QMSv5_01_src = q1,
                         QMSv5_02_src = q2,
                         map_job_id = ''StageIV_Node03_PC_OVERRIDE'',
                         map_source_file = pc_md_path,
                         map_source_sha256 = src_sha,
                         map_manual_override_flag = Some 1 \<rparr> # out)))"

text \<open>
  \<open>parse_pc_override_fragments\<close>, from the extracted fragments on: the file's path
  and SHA-256 are parameters.
\<close>

definition parse_pc_override_fragments ::
  "string \<Rightarrow> string \<Rightarrow> arm_fragment list \<Rightarrow> error + mapping_row list" where
  "parse_pc_override_fragments pc_md_path src_sha frags =
     (if frags = [] then Inl Could_not_extract_PC_override_fragments
      else pc_override_rows pc_md_path src_sha frags)"

section \<open>Multi-source merge\<close>

type_synonym merged_mapping = "key \<rightharpoonup> mapping_row"

definition row_key :: "mapping_row \<Rightarrow> key" where
  "row_key row = (node_scope row, row_group row, arm row)"

text \<open>\<open>put(row, force)\<close> of \<open>main\<close>; the dictionary it closes over is an argument.\<close>

definition put :: "merged_mapping \<Rightarrow> mapping_row \<Rightarrow> bool \<Rightarrow> error + merged_mapping" where
  "put mapping row force =
     (let k = row_key row
      in case mapping k of
           None \<Rightarrow> Inr (mapping(k \<mapsto> row))
         | Some existing \<Rightarrow>
             if force then Inr (mapping(k \<mapsto> row))
             else if status existing = ''pending'' \<and> status row = ''active'' then
               Inr (mapping(k \<mapsto> row))
             else if status existing = ''active'' \<and> status row = ''active''
                     \<and> expected_match_candidate existing \<noteq> expected_match_candidate row then
               Inl (Conflicting_active_mappings k)
             else Inr mapping)"

text \<open>\<open>for r in rows: put(r, force)\<close>: the first exception ends the run.\<close>

fun put_all :: "merged_mapping \<Rightarrow> mapping_row list \<Rightarrow> bool \<Rightarrow> error + merged_mapping" where
  "put_all mapping [] force = Inr mapping"
| "put_all mapping (r # rs) force =
     (case put mapping r force of
        Inl e \<Rightarrow> Inl e
      | Inr mapping' \<Rightarrow> put_all mapping' rs force)"

text \<open>The three loops of \<open>main\<close>, in their order: Stage IIIA, Stage IV, then the override.\<close>

definition merge_sources ::
  "mapping_row list \<Rightarrow> mapping_row list \<Rightarrow> mapping_row list \<Rightarrow> error + merged_mapping" where
  "merge_sources iiia_rows iv_rows pc_rows =
     (case put_all Map.empty iiia_rows False of
        Inl e \<Rightarrow> Inl e
      | Inr m1 \<Rightarrow>
          (case put_all m1 iv_rows False of
             Inl e \<Rightarrow> Inl e
           | Inr m2 \<Rightarrow> put_all m2 pc_rows True))"

section \<open>Comparison reconciler\<close>

text \<open>
  A comparison record is one \<open>csv.DictReader\<close> row: a dictionary from column names
  to strings. The enriched record also holds integers, so its cells are tagged.
\<close>

type_synonym comparison_record = "string \<rightharpoonup> string"

datatype cell = Str string | Num int

type_synonym enriched_record = "string \<rightharpoonup> cell"

text \<open>\<open>(r.get(k) or "")\<close>.\<close>

definition get_or_empty :: "comparison_record \<Rightarrow> string \<Rightarrow> string" where
  "get_or_empty r k = (case r k of None \<Rightarrow> [] | Some v \<Rightarrow> v)"

definition candidate_label_from_compare_folder :: "string \<Rightarrow> string" where
  "candidate_label_from_compare_folder compare_folder =
     (if suffix ''_01'' compare_folder then ''QMSv5_01''
      else if suffix ''_02'' compare_folder then ''QMSv5_02''
      else [])"

definition candidate_label_of :: "comparison_record \<Rightarrow> string" where
  "candidate_label_of r =
     (let compare_folder = strip (get_or_empty r ''compare_folder'');
          candidate_label = strip (get_or_empty r ''candidate_label'')
      in if candidate_label = [] then candidate_label_from_compare_folder compare_folder
         else candidate_label)"

definition key_node :: "comparison_record \<Rightarrow> key" where
  "key_node r =
     (strip (get_or_empty r ''node_id''),
      norm_group (strip (get_or_empty r ''group'')),
      strip (get_or_empty r ''arm''))"

definition key_all :: "comparison_record \<Rightarrow> key" where
  "key_all r =
     (''ALL'',
      norm_group (strip (get_or_empty r ''group'')),
      strip (get_or_empty r ''arm''))"

text \<open>
  \<open>mapping.get(key_node) or mapping.get(key_all)\<close>: a row is a non-empty dictionary,
  so the right operand is evaluated exactly when \<open>key_node\<close> is absent.
\<close>

definition lookup_row :: "merged_mapping \<Rightarrow> comparison_record \<Rightarrow> mapping_row option" where
  "lookup_row mapping r =
     (case mapping (key_node r) of
        Some m \<Rightarrow> Some m
      | None \<Rightarrow> mapping (key_all r))"

definition SCRIPT_NAME :: string where
  "SCRIPT_NAME = ''qms_blinding_map_to_csv_and_merge_v5_1.py''"

definition SCRIPT_VERSION :: string where
  "SCRIPT_VERSION = ''5.1.0''"

text \<open>\<open>merged = dict(r); merged.update({...})\<close>.\<close>

definition enrich :: "comparison_record \<Rightarrow> mapping_row \<Rightarrow> enriched_record" where
  "enrich r m =
     (let candidate_label = candidate_label_of r;
          expected_match = expected_match_candidate m;
          expected_mismatch = expected_mismatch_candidate m;
          is_expected_match = (if candidate_label = expected_match then 1 else 0 :: int);
          is_expected_mismatch = (if candidate_label = expected_mismatch then 1 else 0 :: int);
          observed_match_via_pass = (if r ''pass_fail'' = Some ''PASS'' then 1 else 0 :: int);
          classification_correct =
            (if observed_match_via_pass = is_expected_match then 1 else 0 :: int)
      in (map_option Str \<circ> r) ++ map_of
           [(''blinding_map_status'', Str (status m)),
            (''expected_match_candidate'', Str expected_match),
            (''expected_mismatch_candidate'', Str expected_mismatch),
            (''is_expected_match_candidate'', Num is_expected_match),
            (''is_expected_mismatch_candidate'', Num is_expected_mismatch),
            (''observed_match_via_pass'', Num observed_match_via_pass),
            (''classification_correct'', Num classification_correct),
            (''blinding_map_rule'', Str (rule m)),
            (''blinding_map_source_file'', Str (map_source_file m)),
            (''blinding_map_source_sha256'', Str (map_source_sha256 m)),
            (''blinding_map_job_id'', Str (map_job_id m)),
            (''blinding_map_manual_override_flag'',
               Num (case map_manual_override_flag m of None \<Rightarrow> 0 | Some f \<Rightarrow> f)),
            (''blinding_parser_script'', Str SCRIPT_NAME),
            (''blinding_parser_version'', Str SCRIPT_VERSION)])"

text \<open>The list \<open>new_fields\<close> of \<open>main\<close>.\<close>

definition new_fields :: "string list" where
  "new_fields =
     [''blinding_map_status'', ''expected_match_candidate'', ''expected_mismatch_candidate'',
      ''is_expected_match_candidate'', ''is_expected_mismatch_candidate'',
      ''observed_match_via_pass'', ''classification_correct'',
      ''blinding_map_rule'',
      ''blinding_map_source_file'', ''blinding_map_source_sha256'', ''blinding_map_job_id'',
      ''blinding_map_manual_override_flag'',
      ''blinding_parser_script'', ''blinding_parser_version'']"

text \<open>
  The body of the loop over the comparison rows: \<open>Inl\<close> is the key appended to
  \<open>missing_map\<close>, \<open>Inr\<close> the record appended to \<open>out_rows\<close>.
\<close>

definition reconcile_step :: "merged_mapping \<Rightarrow> comparison_record \<Rightarrow> key + enriched_record" where
  "reconcile_step mapping r =
     (case lookup_row mapping r of
        None \<Rightarrow> Inl (key_node r)
      | Some m \<Rightarrow>
          if status m \<noteq> ''active'' then Inl (key_node r)
          else Inr (enrich r m))"

fun reconcile_loop ::
  "merged_mapping \<Rightarrow> comparison_record list \<Rightarrow> enriched_record list \<Rightarrow> key list
     \<Rightarrow> enriched_record list \<times> key list" where
  "reconcile_loop mapping [] out_rows missing_map = (out_rows, missing_map)"
| "reconcile_loop mapping (r # rs) out_rows missing_map =
     (case reconcile_step mapping r of
        Inl k \<Rightarrow> reconcile_loop mapping rs out_rows (missing_map @ [k])
      | Inr merged \<Rightarrow> reconcile_loop mapping rs (out_rows @ [merged]) missing_map)"

text \<open>
  Lines 419 to 475 of \<open>main\<close>: the guard against a CSV without rows, the loop, then
  the fail-closed check. \<open>sorted(set(missing_map))\<close> is \<open>sort (remdups missing_map)\<close>;
  tuples of strings compare lexicographically, strings by code point.
\<close>

definition reconcile :: "merged_mapping \<Rightarrow> comparison_record list \<Rightarrow> error + enriched_record list" where
  "reconcile mapping comp_rows =
     (if comp_rows = [] then Inl Comparisons_CSV_has_no_rows
      else
        case reconcile_loop mapping comp_rows [] [] of
          (out_rows, missing_map) \<Rightarrow>
            if missing_map \<noteq> [] then
              (let uniq = sort (remdups missing_map)
               in Inl (Missing_active_blinding_mappings (length uniq) (take 8 uniq)))
            else Inr out_rows)"

section \<open>The specification's vocabulary\<close>

text \<open>
  A label contains the tamper marker, case-insensitively, when some contiguous part of it
  reads \<open>TAMPER\<close> once upper-cased.
\<close>

definition contains_tamper_marker :: "string \<Rightarrow> bool" where
  "contains_tamper_marker L = (\<exists>ps w ss. L = ps @ w @ ss \<and> u_upper w = ''TAMPER'')"

text \<open>
  A comparison record resolves to an active row when its node-specific key holds an
  active row, or is absent while the wildcard key holds an active row.
\<close>

definition resolves_active :: "merged_mapping \<Rightarrow> comparison_record \<Rightarrow> bool" where
  "resolves_active mapping r =
     (\<exists>m. status m = ''active'' \<and>
          (mapping (key_node r) = Some m
           \<or> (mapping (key_node r) = None \<and> mapping (key_all r) = Some m)))"

text \<open>
  The row of a manual-override fragment: it is anchored to Node03, under the fragment's
  normalised group and its arm; it is active; its expected candidates and rule are what
  the resolver returns on the fragment's three labels; it keeps those labels; it names the
  override job and the override document and its hash; and it carries the manual-override
  flag 1.
\<close>

definition is_override_row_of :: "string \<Rightarrow> string \<Rightarrow> arm_fragment \<Rightarrow> mapping_row \<Rightarrow> bool" where
  "is_override_row_of path sha a r =
     (node_scope r = ''Node03_HVT_A_COMPLETED''
      \<and> row_group r = norm_group (frag_group a)
      \<and> arm r = frag_arm a
      \<and> status r = ''active''
      \<and> determine_expected_match (frag_A_src a) (frag_QMSv5_01_src a) (frag_QMSv5_02_src a) =
          Inr (expected_match_candidate r, expected_mismatch_candidate r, rule r)
      \<and> A_src r = frag_A_src a
      \<and> QMSv5_01_src r = frag_QMSv5_01_src a
      \<and> QMSv5_02_src r = frag_QMSv5_02_src a
      \<and> map_job_id r = ''StageIV_Node03_PC_OVERRIDE''
      \<and> map_source_file r = path
      \<and> map_source_sha256 r = sha
      \<and> map_manual_override_flag r = Some 1)"

section \<open>Example data\<close>

text \<open>
  The rows of one arm, Node03 / Positive_Controls / PC1, as the sources could hold them:
  an active Stage IV row, its pending placeholder, an active row that disagrees on the
  expected match, the same arm under the wildcard scope, and the override fragment with
  the row parsed from it.
\<close>

definition example_active :: mapping_row where
  "example_active =
     \<lparr> node_scope = ''Node03_HVT_A_COMPLETED'',
       row_group = ''Positive_Controls'',
       arm = ''PC1'',
       status = ''active'',
       expected_match_candidate = ''QMSv5_02'',
       expected_mismatch_candidate = ''QMSv5_01'',
       rule = ''A=BASELINE -> match=non-tamper'',
       A_src = ''BASELINE_A_SRC'',
       QMSv5_01_src = ''QMS_CANDIDATE_WORKING_TAMPER'',
       QMSv5_02_src = ''QMS_CANDIDATE_NORMAL'',
       map_job_id = ''StageIV_Node03'',
       map_source_file = ''stage_iv_map.md'',
       map_source_sha256 = ''4f'',
       map_manual_override_flag = None \<rparr>"

definition example_pending :: mapping_row where
  "example_pending =
     example_active\<lparr> status := ''pending'', expected_match_candidate := [],
       expected_mismatch_candidate := [], rule := [] \<rparr>"

definition example_conflicting :: mapping_row where
  "example_conflicting =
     example_active\<lparr> expected_match_candidate := ''QMSv5_01'',
       expected_mismatch_candidate := ''QMSv5_02'' \<rparr>"

definition example_wildcard :: mapping_row where
  "example_wildcard = example_active\<lparr> node_scope := ''ALL'', map_job_id := ''StageIIIA'' \<rparr>"

definition example_fragment :: arm_fragment where
  "example_fragment =
     \<lparr> frag_group = ''IIIA_Positive_Controls'',
       frag_arm = ''PC1'',
       frag_A_src = ''BASELINE_A_SRC'',
       frag_QMSv5_01_src = ''QMS_CANDIDATE_WORKING_TAMPER'',
       frag_QMSv5_02_src = ''QMS_CANDIDATE_NORMAL'' \<rparr>"

definition example_override :: mapping_row where
  "example_override =
     example_active\<lparr> map_job_id := ''StageIV_Node03_PC_OVERRIDE'',
       map_source_file := ''node03_pc_override.md'', map_source_sha256 := ''9c'',
       map_manual_override_flag := Some 1 \<rparr>"

text \<open>A second override fragment, for arm PC2, with the candidates the other way round.\<close>

definition example_fragment_2 :: arm_fragment where
  "example_fragment_2 =
     \<lparr> frag_group = ''Positive_Controls'',
       frag_arm = ''PC2'',
       frag_A_src = ''BASELINE_A_SRC'',
       frag_QMSv5_01_src = ''QMS_CANDIDATE_NORMAL'',
       frag_QMSv5_02_src = ''QMS_CANDIDATE_WORKING_TAMPER'' \<rparr>"

definition example_override_2 :: mapping_row where
  "example_override_2 =
     example_override\<lparr> arm := ''PC2'', expected_match_candidate := ''QMSv5_01'',
       expected_mismatch_candidate := ''QMSv5_02'',
       QMSv5_01_src := ''QMS_CANDIDATE_NORMAL'',
       QMSv5_02_src := ''QMS_CANDIDATE_WORKING_TAMPER'' \<rparr>"

text \<open>A comparison row of that arm, for candidate one, declared \<open>PASS\<close>.\<close>

definition example_record :: comparison_record where
  "example_record =
     [''node_id'' \<mapsto> ''Node03_HVT_A_COMPLETED'',
      ''group'' \<mapsto> ''Positive_Controls'',
      ''arm'' \<mapsto> ''PC1'',
      ''compare_folder'' \<mapsto> ''COMPARE_A_vs_QMSv5_01'',
      ''pass_fail'' \<mapsto> ''PASS'']"

text \<open>The same row from a CSV that already has a column \<open>classification_correct\<close>.\<close>

definition example_record_reviewed :: comparison_record where
  "example_record_reviewed = example_record(''classification_correct'' \<mapsto> ''unreviewed'')"

text \<open>Nine comparison rows of nine arms, none of which any source maps.\<close>

definition unmapped_record :: "string \<Rightarrow> comparison_record" where
  "unmapped_record a = [''node_id'' \<mapsto> ''N'', ''group'' \<mapsto> ''G'', ''arm'' \<mapsto> a]"

definition nine_unmapped_rows :: "comparison_record list" where
  "nine_unmapped_rows =
     [unmapped_record ''9'', unmapped_record ''8'', unmapped_record ''7'',
      unmapped_record ''6'', unmapped_record ''5'', unmapped_record ''4'',
      unmapped_record ''3'', unmapped_record ''2'', unmapped_record ''1'']"

definition first_eight_keys :: "key list" where
  "first_eight_keys =
     [(''N'', ''G'', ''1''), (''N'', ''G'', ''2''), (''N'', ''G'', ''3''), (''N'', ''G'', ''4''),
      (''N'', ''G'', ''5''), (''N'', ''G'', ''6''), (''N'', ''G'', ''7''), (''N'', ''G'', ''8'')]"

section \<open>Classification is insensitive to surrounding white space\<close>

lemma is_space_upper_char: "is_space (upper_char c) = is_space c"
  by (auto simp: is_space_def upper_char_def split: option.splits if_splits)

lemma sublist_skip_front:
  assumes "\<forall>c\<in>set a. P c" and "\<forall>c\<in>set t. \<not> P c" and "t \<noteq> []"
  shows "sublist t (a @ m) = sublist t m"
  using assms(1)
proof (induction a)
  case Nil
  then show ?case by simp
next
  case (Cons x a)
  have "\<not> prefix t (x # a @ m)"
  proof
    assume "prefix t (x # a @ m)"
    with assms(3) obtain t' where "t = x # t'"
      by (cases t) auto
    with assms(2) Cons.prems show False by auto
  qed
  with Cons show ?case
    by (simp add: sublist_Cons_right)
qed

lemma sublist_skip_back:
  assumes "\<forall>c\<in>set b. P c" and "\<forall>c\<in>set t. \<not> P c" and "t \<noteq> []"
  shows "sublist t (m @ b) = sublist t m"
proof -
  have "sublist t (m @ b) = sublist (rev t) (rev b @ rev m)"
    by (metis rev_append sublist_rev)
  also have "\<dots> = sublist (rev t) (rev m)"
    using assms by (intro sublist_skip_front[where P = P]) auto
  also have "\<dots> = sublist t m"
    by (rule sublist_rev)
  finally show ?thesis .
qed

lemma strip_decomp:
  "\<exists>a b. s = a @ strip s @ b \<and> (\<forall>c\<in>set a. is_space c) \<and> (\<forall>c\<in>set b. is_space c)"
proof -
  let ?a = "takeWhile is_space s"
  let ?d = "dropWhile is_space s"
  let ?b = "rev (takeWhile is_space (rev ?d))"
  have "rev ?d = takeWhile is_space (rev ?d) @ dropWhile is_space (rev ?d)"
    by simp
  then have "?d = strip s @ ?b"
    unfolding strip_def by (metis rev_append rev_rev_ident)
  then have "s = ?a @ strip s @ ?b"
    by (metis takeWhile_dropWhile_id)
  moreover have "\<forall>c\<in>set ?a. is_space c"
    by (auto dest: set_takeWhileD)
  moreover have "\<forall>c\<in>set ?b. is_space c"
    by (auto dest: set_takeWhileD)
  ultimately show ?thesis by blast
qed

lemma sublist_u_upper_strip:
  assumes "\<forall>c\<in>set t. \<not> is_space c" and "t \<noteq> []"
  shows "sublist t (u_upper (strip s)) = sublist t (u_upper s)"
proof -
  obtain a b where s: "s = a @ strip s @ b"
    and a: "\<forall>c\<in>set a. is_space c" and b: "\<forall>c\<in>set b. is_space c"
    using strip_decomp by blast
  have ua: "\<forall>c\<in>set (u_upper a). is_space c"
    using a by (simp add: u_upper_def is_space_upper_char)
  have ub: "\<forall>c\<in>set (u_upper b). is_space c"
    using b by (simp add: u_upper_def is_space_upper_char)
  have "u_upper s = u_upper a @ u_upper (strip s) @ u_upper b"
    by (subst s) (simp add: u_upper_def)
  then have "sublist t (u_upper s) = sublist t (u_upper a @ u_upper (strip s) @ u_upper b)"
    by simp
  also have "\<dots> = sublist t (u_upper (strip s) @ u_upper b)"
    using ua assms by (rule sublist_skip_front)
  also have "\<dots> = sublist t (u_upper (strip s))"
    using ub assms by (rule sublist_skip_back)
  finally show ?thesis by simp
qed

lemma looks_tamper_strip: "looks_tamper (strip s) = looks_tamper s"
  by (simp add: looks_tamper_def Let_def sublist_u_upper_strip is_space_def)

lemma looks_pc_strip: "looks_pc (strip s) = looks_pc s"
  by (simp add: looks_pc_def Let_def sublist_u_upper_strip is_space_def)

lemma a_type_strip: "a_type (strip s) = a_type s"
  by (simp add: a_type_def looks_tamper_strip looks_pc_strip)

lemma looks_tamper_iff_sublist: "looks_tamper s = sublist ''TAMPER'' (u_upper s)"
proof -
  have "sublist ''TAMPER'' ''WORKING_TAMPER''"
    by (simp add: sublist_code)
  then have "sublist ''WORKING_TAMPER'' x \<Longrightarrow> sublist ''TAMPER'' x" for x
    using sublist_order.order_trans by blast 
  then show ?thesis
    by (auto simp: looks_tamper_def Let_def)
qed

lemma sublist_map_iff:
  "sublist t (map f L) = (\<exists>ps w ss. L = ps @ w @ ss \<and> map f w = t)"
proof
  assume "\<exists>ps w ss. L = ps @ w @ ss \<and> map f w = t"
  then obtain ps w ss where "L = ps @ w @ ss" and "map f w = t"
    by blast
  then have "map f L = map f ps @ t @ map f ss"
    by simp
  then show "sublist t (map f L)"
    unfolding sublist_def by blast
next
  assume "sublist t (map f L)"
  then obtain ps' ss' where eq: "map f L = ps' @ t @ ss'"
    unfolding sublist_def by blast
  then have "\<exists>us vs. L = us @ vs \<and> ps' = map f us \<and> t @ ss' = map f vs"
    by (simp only: map_eq_append_conv)
  then obtain ps r where L1: "L = ps @ r" and r: "t @ ss' = map f r"
    by blast
  from r have "\<exists>us vs. r = us @ vs \<and> t = map f us \<and> ss' = map f vs"
    by (simp only: append_eq_map_conv)
  then obtain w ss where "r = w @ ss" and "map f w = t"
    by blast
  with L1 show "\<exists>ps w ss. L = ps @ w @ ss \<and> map f w = t"
    by blast
qed

lemma contains_tamper_marker_iff: "contains_tamper_marker L = sublist ''TAMPER'' (u_upper L)"
  unfolding contains_tamper_marker_def u_upper_def by (rule sublist_map_iff [symmetric])

section \<open>Packet-kind classifier\<close>

text \<open>
  C4. The classifier is a total function into the three kinds, and the tamper rule has
  priority: a label that contains the tamper marker in any mix of cases is \<open>TAMPER\<close>
  whatever else it contains (positive-control cues included), and a label without the
  marker, for example one that only contains \<open>HMAC\<close>, is never \<open>TAMPER\<close>.
\<close>

theorem a_type_tamper_priority:
  "(\<exists>!k. a_type L = k)
   \<and> (contains_tamper_marker L \<longrightarrow> a_type L = TAMPER)
   \<and> (\<not> contains_tamper_marker L \<longrightarrow> a_type L \<noteq> TAMPER)"
  by (simp add: a_type_def looks_tamper_iff_sublist contains_tamper_marker_iff)

theorem a_type_tamper_priority_witness:
  "contains_tamper_marker ''pc_reexport_packet_Tamper''
   \<and> looks_pc ''pc_reexport_packet_Tamper''
   \<and> a_type ''pc_reexport_packet_Tamper'' = TAMPER
   \<and> \<not> contains_tamper_marker ''QMS_HMAC_PACKET''
   \<and> a_type ''QMS_HMAC_PACKET'' \<noteq> TAMPER"
proof -
  have m: "contains_tamper_marker ''pc_reexport_packet_Tamper''"
    by (simp add: contains_tamper_marker_iff u_upper_def upper_char_def sublist_code)
  have pc: "looks_pc ''pc_reexport_packet_Tamper''"
    by (simp add: looks_pc_def u_upper_def upper_char_def sublist_code)
  have n: "\<not> contains_tamper_marker ''QMS_HMAC_PACKET''"
    by (simp add: contains_tamper_marker_iff u_upper_def upper_char_def sublist_code)
  have t1: "a_type ''pc_reexport_packet_Tamper'' = TAMPER"
    using a_type_tamper_priority [of "''pc_reexport_packet_Tamper''"] m by (elim conjE) (rule mp)
  have t2: "a_type ''QMS_HMAC_PACKET'' \<noteq> TAMPER"
    using a_type_tamper_priority [of "''QMS_HMAC_PACKET''"] n by (elim conjE) (rule mp)
  from m pc n t1 t2 show ?thesis
    by (intro conjI)
qed

section \<open>Expected-outcome resolver: decision table\<close>

text \<open>
  The resolver classifies the stripped labels; by the lemmas above that is the
  classification of the labels as given.
\<close>

lemma determine_expected_match_unfold:
  "determine_expected_match A q1 q2 =
     (if strip A = [] \<or> strip q1 = [] \<or> strip q2 = [] then Inl Missing_A_src_or_candidate_src
      else if a_type A = TAMPER then
        (if looks_tamper q1 \<and> \<not> looks_tamper q2 then
           Inr (''QMSv5_01'', ''QMSv5_02'', ''A=TAMPER -> match=tamper'')
         else if looks_tamper q2 \<and> \<not> looks_tamper q1 then
           Inr (''QMSv5_02'', ''QMSv5_01'', ''A=TAMPER -> match=tamper'')
         else Inl Ambiguous_A_is_TAMPER)
      else if a_type A = PC then
        (if looks_pc q1 \<and> \<not> looks_pc q2 then
           Inr (''QMSv5_01'', ''QMSv5_02'', ''A=PC -> match=pc'')
         else if looks_pc q2 \<and> \<not> looks_pc q1 then
           Inr (''QMSv5_02'', ''QMSv5_01'', ''A=PC -> match=pc'')
         else if looks_tamper q1 \<and> \<not> looks_tamper q2 then
           Inr (''QMSv5_02'', ''QMSv5_01'', ''A=PC -> match=non-tamper fallback'')
         else if looks_tamper q2 \<and> \<not> looks_tamper q1 then
           Inr (''QMSv5_01'', ''QMSv5_02'', ''A=PC -> match=non-tamper fallback'')
         else Inl Ambiguous_A_is_PC)
      else if looks_tamper q1 \<and> \<not> looks_tamper q2 then
        Inr (''QMSv5_02'', ''QMSv5_01'', ''A=BASELINE -> match=non-tamper'')
      else if looks_tamper q2 \<and> \<not> looks_tamper q1 then
        Inr (''QMSv5_01'', ''QMSv5_02'', ''A=BASELINE -> match=non-tamper'')
      else Inl Ambiguous_BASELINE_arm)"
  unfolding determine_expected_match_def Let_def a_type_strip looks_tamper_strip looks_pc_strip
  by (rule refl)

lemma a_type_BASELINE_A_SRC: "a_type ''BASELINE_A_SRC'' = BASELINE"
  by (simp add: a_type_def looks_tamper_def looks_pc_def u_upper_def upper_char_def sublist_code)

lemma looks_tamper_WORKING_TAMPER: "looks_tamper ''QMS_CANDIDATE_WORKING_TAMPER''"
  by (simp add: looks_tamper_def u_upper_def upper_char_def sublist_code)

lemma looks_tamper_NORMAL: "\<not> looks_tamper ''QMS_CANDIDATE_NORMAL''"
  by (simp add: looks_tamper_def u_upper_def upper_char_def sublist_code)

lemma a_type_WORKING_TAMPER: "a_type ''QMS_CANDIDATE_WORKING_TAMPER'' = TAMPER"
  by (simp add: a_type_def looks_tamper_WORKING_TAMPER)

lemma strip_labels:
  "strip ''BASELINE_A_SRC'' \<noteq> []"
  "strip ''QMS_CANDIDATE_WORKING_TAMPER'' \<noteq> []"
  "strip ''QMS_CANDIDATE_NORMAL'' \<noteq> []"
  "strip [] = []"
  "strip [CHR 0xA0] = []"
  by (simp_all add: strip_def is_space_def)

text \<open>
  C2, as the claim states it, fails: a baseline reference with exactly one tamper candidate
  is refused when the other candidate's label is empty (the default of a missing
  \<open>QMSv5_02_src\<close>), because the emptiness guard comes first.
\<close>

theorem determine_expected_match_baseline_counterexample:
  "a_type ''BASELINE_A_SRC'' = BASELINE
   \<and> looks_tamper ''QMS_CANDIDATE_WORKING_TAMPER''
   \<and> \<not> looks_tamper []
   \<and> determine_expected_match ''BASELINE_A_SRC'' ''QMS_CANDIDATE_WORKING_TAMPER'' [] =
       Inl Missing_A_src_or_candidate_src"
proof -
  have "\<not> looks_tamper []"
    by (simp add: looks_tamper_def u_upper_def)
  moreover have
    "determine_expected_match ''BASELINE_A_SRC'' ''QMS_CANDIDATE_WORKING_TAMPER'' [] =
       Inl Missing_A_src_or_candidate_src"
    by (simp add: determine_expected_match_unfold strip_labels)
  ultimately show ?thesis
    using a_type_BASELINE_A_SRC looks_tamper_WORKING_TAMPER by (intro conjI)
qed

text \<open>
  C2, amended: when the reference classifies as \<open>BASELINE\<close> and none of the three labels
  is empty after stripping, exactly one tamper candidate makes the resolver return the
  other candidate's identifier as expected match and the tamper candidate's identifier as
  expected mismatch (candidate one is \<open>QMSv5_01\<close>, candidate two \<open>QMSv5_02\<close>, and the two
  identifiers differ); when neither candidate is tamper the resolver fails.
\<close>

theorem determine_expected_match_baseline:
  assumes "a_type ref = BASELINE"
  shows "(strip ref \<noteq> [] \<and> strip candA \<noteq> [] \<and> strip candB \<noteq> []
            \<and> looks_tamper candA \<and> \<not> looks_tamper candB \<longrightarrow>
          determine_expected_match ref candA candB =
            Inr (''QMSv5_02'', ''QMSv5_01'', ''A=BASELINE -> match=non-tamper''))
       \<and> (strip ref \<noteq> [] \<and> strip candA \<noteq> [] \<and> strip candB \<noteq> []
            \<and> looks_tamper candB \<and> \<not> looks_tamper candA \<longrightarrow>
          determine_expected_match ref candA candB =
            Inr (''QMSv5_01'', ''QMSv5_02'', ''A=BASELINE -> match=non-tamper''))
       \<and> (\<not> looks_tamper candA \<and> \<not> looks_tamper candB \<longrightarrow>
          determine_expected_match ref candA candB \<in>
            {Inl Missing_A_src_or_candidate_src, Inl Ambiguous_BASELINE_arm})
       \<and> ''QMSv5_01'' \<noteq> ''QMSv5_02''"
  using assms by (simp add: determine_expected_match_unfold)

theorem determine_expected_match_baseline_witness:
  "a_type ''BASELINE_A_SRC'' = BASELINE
   \<and> determine_expected_match
        ''BASELINE_A_SRC'' ''QMS_CANDIDATE_WORKING_TAMPER'' ''QMS_CANDIDATE_NORMAL'' =
       Inr (''QMSv5_02'', ''QMSv5_01'', ''A=BASELINE -> match=non-tamper'')
   \<and> determine_expected_match
        ''BASELINE_A_SRC'' ''QMS_CANDIDATE_NORMAL'' ''QMS_CANDIDATE_WORKING_TAMPER'' =
       Inr (''QMSv5_01'', ''QMSv5_02'', ''A=BASELINE -> match=non-tamper'')
   \<and> determine_expected_match
        ''BASELINE_A_SRC'' ''QMS_CANDIDATE_NORMAL'' ''QMS_CANDIDATE_NORMAL'' \<in>
       {Inl Missing_A_src_or_candidate_src, Inl Ambiguous_BASELINE_arm}"
  using
    determine_expected_match_baseline [OF a_type_BASELINE_A_SRC,
      of "''QMS_CANDIDATE_WORKING_TAMPER''" "''QMS_CANDIDATE_NORMAL''"]
    determine_expected_match_baseline [OF a_type_BASELINE_A_SRC,
      of "''QMS_CANDIDATE_NORMAL''" "''QMS_CANDIDATE_WORKING_TAMPER''"]
    determine_expected_match_baseline [OF a_type_BASELINE_A_SRC,
      of "''QMS_CANDIDATE_NORMAL''" "''QMS_CANDIDATE_NORMAL''"]
    a_type_BASELINE_A_SRC looks_tamper_WORKING_TAMPER looks_tamper_NORMAL strip_labels
  by simp

text \<open>
  C7. The resolver returns no pair when one of its three inputs is empty after stripping
  white space (it raises the missing-source error), nor when the reference classifies as \<open>TAMPER\<close>
  and the candidates are both tamper or both not tamper (it raises that error or the
  ambiguity error).
\<close>

theorem determine_expected_match_fails:
  "(strip ref = [] \<or> strip candA = [] \<or> strip candB = [] \<longrightarrow>
      determine_expected_match ref candA candB = Inl Missing_A_src_or_candidate_src)
   \<and> (a_type ref = TAMPER \<and> looks_tamper candA = looks_tamper candB \<longrightarrow>
      determine_expected_match ref candA candB \<in>
        {Inl Missing_A_src_or_candidate_src, Inl Ambiguous_A_is_TAMPER})"
  by (simp add: determine_expected_match_unfold)

theorem determine_expected_match_fails_witness:
  "strip [CHR 0xA0] = []
   \<and> determine_expected_match [CHR 0xA0] ''QMS_CANDIDATE_WORKING_TAMPER'' ''QMS_CANDIDATE_NORMAL'' =
       Inl Missing_A_src_or_candidate_src
   \<and> determine_expected_match ''BASELINE_A_SRC'' ''QMS_CANDIDATE_WORKING_TAMPER'' [] =
       Inl Missing_A_src_or_candidate_src
   \<and> a_type ''QMS_CANDIDATE_WORKING_TAMPER'' = TAMPER
   \<and> determine_expected_match
        ''QMS_CANDIDATE_WORKING_TAMPER'' ''QMS_CANDIDATE_NORMAL'' ''QMS_CANDIDATE_NORMAL'' \<in>
       {Inl Missing_A_src_or_candidate_src, Inl Ambiguous_A_is_TAMPER}"
  using
    determine_expected_match_fails
      [of "[CHR 0xA0]" "''QMS_CANDIDATE_WORKING_TAMPER''" "''QMS_CANDIDATE_NORMAL''"]
    determine_expected_match_fails
      [of "''BASELINE_A_SRC''" "''QMS_CANDIDATE_WORKING_TAMPER''" "[]"]
    determine_expected_match_fails
      [of "''QMS_CANDIDATE_WORKING_TAMPER''" "''QMS_CANDIDATE_NORMAL''" "''QMS_CANDIDATE_NORMAL''"]
    a_type_WORKING_TAMPER strip_labels
  by simp

section \<open>Merge engine\<close>

lemma row_key_update_other [simp]:
  "row_key (row\<lparr>expected_mismatch_candidate := mm, rule := ru, A_src := a,
      QMSv5_01_src := q1, QMSv5_02_src := q2, map_job_id := j, map_source_file := f,
      map_source_sha256 := h, map_manual_override_flag := fl\<rparr>) = row_key row"
  by (simp add: row_key_def)

lemma put_absent: "mapping (row_key row) = None \<Longrightarrow> put mapping row force = Inr (mapping(row_key row \<mapsto> row))"
  by (simp add: put_def Let_def)

lemma put_force: "put mapping row True = Inr (mapping(row_key row \<mapsto> row))"
  by (simp add: put_def Let_def split: option.splits)

lemma put_present:
  "mapping (row_key row) = Some existing \<Longrightarrow>
   put mapping row False =
     (if status existing = ''pending'' \<and> status row = ''active'' then
        Inr (mapping(row_key row \<mapsto> row))
      else if status existing = ''active'' \<and> status row = ''active''
              \<and> expected_match_candidate existing \<noteq> expected_match_candidate row then
        Inl (Conflicting_active_mappings (row_key row))
      else Inr mapping)"
  by (simp add: put_def Let_def)

lemma put_twice:
  assumes "put mapping row False = Inr m1"
  shows "put m1 row False = Inr m1"
proof (cases "mapping (row_key row)")
  case None
  with assms have "m1 = mapping(row_key row \<mapsto> row)"
    by (simp add: put_absent)
  then have "m1 (row_key row) = Some row"
    by simp
  then show ?thesis
    by (simp add: put_present fun_upd_idem)
next
  case (Some existing)
  show ?thesis
  proof (cases "status existing = ''pending'' \<and> status row = ''active''")
    case True
    with Some assms have "m1 = mapping(row_key row \<mapsto> row)"
      by (simp add: put_present)
    then have "m1 (row_key row) = Some row"
      by simp
    then show ?thesis
      by (simp add: put_present fun_upd_idem)
  next
    case False
    with Some assms have "m1 = mapping"
      by (simp add: put_present split: if_splits)
    with Some assms show ?thesis
      by simp
  qed
qed

lemma put_all_force:
  "put_all mapping rows True = Inr (foldl (\<lambda>m r. m(row_key r \<mapsto> r)) mapping rows)"
  by (induction rows arbitrary: mapping) (simp_all add: put_force)

lemma foldl_upd_last_wins:
  "r \<in> set rows \<Longrightarrow>
   \<exists>r'\<in>set rows. row_key r' = row_key r
      \<and> foldl (\<lambda>m r. m(row_key r \<mapsto> r)) mapping rows (row_key r) = Some r'"
proof (induction rows rule: rev_induct)
  case Nil
  then show ?case by simp
next
  case (snoc x xs)
  show ?case
  proof (cases "row_key x = row_key r")
    case True
    then show ?thesis by auto
  next
    case False
    with snoc.prems have "r \<in> set xs" by auto
    from snoc.IH [OF this] False show ?thesis by auto
  qed
qed

lemma put_all_force_index:
  assumes "i < length rows"
  shows "\<exists>j<length rows. i \<le> j \<and> row_key (rows ! j) = row_key (rows ! i)
           \<and> foldl (\<lambda>m r. m(row_key r \<mapsto> r)) mapping rows (row_key (rows ! i)) = Some (rows ! j)"
  using assms
proof (induction rows rule: rev_induct)
  case Nil
  then show ?case by simp
next
  case (snoc x xs)
  show ?case
  proof (cases "row_key x = row_key ((xs @ [x]) ! i)")
    case True
    have "length xs < length (xs @ [x])" and "i \<le> length xs"
      using snoc.prems by simp_all
    moreover have "row_key ((xs @ [x]) ! length xs) = row_key ((xs @ [x]) ! i)"
      using True by simp
    moreover have "foldl (\<lambda>m r. m(row_key r \<mapsto> r)) mapping (xs @ [x]) (row_key ((xs @ [x]) ! i)) =
        Some ((xs @ [x]) ! length xs)"
      using True by simp
    ultimately show ?thesis
      by blast
  next
    case False
    have i: "i < length xs"
    proof (rule ccontr)
      assume "\<not> i < length xs"
      with snoc.prems have "i = length xs" by simp
      with False show False by simp
    qed
    from snoc.IH [OF i] obtain j where j: "j < length xs" "i \<le> j"
      "row_key (xs ! j) = row_key (xs ! i)"
      "foldl (\<lambda>m r. m(row_key r \<mapsto> r)) mapping xs (row_key (xs ! i)) = Some (xs ! j)"
      by blast
    from i have xi: "(xs @ [x]) ! i = xs ! i"
      by (simp add: nth_append)
    from j(1) have xj: "(xs @ [x]) ! j = xs ! j"
      by (simp add: nth_append)
    from False xi have ne: "row_key x \<noteq> row_key (xs ! i)"
      by simp
    have "foldl (\<lambda>m r. m(row_key r \<mapsto> r)) mapping (xs @ [x]) (row_key ((xs @ [x]) ! i)) =
        Some ((xs @ [x]) ! j)"
      using j(4) ne by (simp add: xi xj)
    moreover have "j < length (xs @ [x])"
      using j(1) by simp
    moreover have "row_key ((xs @ [x]) ! j) = row_key ((xs @ [x]) ! i)"
      using j(3) by (simp add: xi xj)
    ultimately show ?thesis
      using j(2) by blast
  qed
qed

lemma pc_override_rows_nth:
  "pc_override_rows path sha frags = Inr rows \<Longrightarrow>
   length rows = length frags
   \<and> (\<forall>i<length frags. is_override_row_of path sha (frags ! i) (rows ! i))"
proof (induction frags arbitrary: rows)
  case Nil
  then show ?case by simp
next
  case (Cons a frags)
  from Cons.prems obtain em emm ru out where
    dem: "determine_expected_match (frag_A_src a) (frag_QMSv5_01_src a) (frag_QMSv5_02_src a) =
            Inr (em, emm, ru)"
    and out: "pc_override_rows path sha frags = Inr out"
    and rows: "rows =
      \<lparr> node_scope = ''Node03_HVT_A_COMPLETED'', row_group = norm_group (frag_group a),
        arm = frag_arm a, status = ''active'', expected_match_candidate = em,
        expected_mismatch_candidate = emm, rule = ru, A_src = frag_A_src a,
        QMSv5_01_src = frag_QMSv5_01_src a, QMSv5_02_src = frag_QMSv5_02_src a,
        map_job_id = ''StageIV_Node03_PC_OVERRIDE'', map_source_file = path,
        map_source_sha256 = sha, map_manual_override_flag = Some 1 \<rparr> # out"
    by (auto simp: Let_def split: sum.splits prod.splits)
  from dem rows have x: "is_override_row_of path sha a (rows ! 0)"
    by (simp add: is_override_row_of_def)
  from Cons.IH [OF out] have len: "length out = length frags"
    and nth: "\<forall>i<length frags. is_override_row_of path sha (frags ! i) (out ! i)"
    by simp_all
  have "is_override_row_of path sha ((a # frags) ! i) (rows ! i)" if "i < length (a # frags)" for i
  proof (cases i)
    case 0
    with x show ?thesis by simp
  next
    case (Suc n)
    with that nth rows show ?thesis by simp
  qed
  with len rows show ?case
    by simp
qed

lemma merge_sources_last_stage:
  "merge_sources iiia_rows iv_rows pc_rows = Inr m \<Longrightarrow>
   \<exists>m2. m = foldl (\<lambda>m r. m(row_key r \<mapsto> r)) m2 pc_rows"
  by (auto simp: merge_sources_def put_all_force split: sum.splits)

text \<open>
  C1. An active row put, without force, on a key that holds an active row: when the two
  agree on the expected-match candidate the mapping is returned unchanged; when they
  disagree the merge raises the conflict error for that key. Putting the same active row
  twice in a row gives what putting it once gives.
\<close>

theorem put_active_on_active:
  assumes "status row = ''active''"
  shows "(\<forall>existing. mapping (row_key row) = Some existing \<and> status existing = ''active'' \<longrightarrow>
            (expected_match_candidate existing = expected_match_candidate row \<longrightarrow>
               put mapping row False = Inr mapping)
          \<and> (expected_match_candidate existing \<noteq> expected_match_candidate row \<longrightarrow>
               put mapping row False = Inl (Conflicting_active_mappings (row_key row))))
       \<and> put_all mapping [row, row] False = put_all mapping [row] False"
proof -
  have "put_all mapping [row, row] False = put_all mapping [row] False"
    by (cases "put mapping row False") (simp_all add: put_twice)
  with assms show ?thesis
    by (simp add: put_present)
qed

text \<open>
  C9. In that comparison only \<open>expected_match_candidate\<close> counts: whatever the new active
  row holds as expected-mismatch candidate, rule, raw labels, provenance and override
  flag, the put succeeds and the mapping, with the existing row, is returned unchanged.
\<close>

theorem put_compares_expected_match_only:
  assumes "mapping (row_key row) = Some existing"
    and "status existing = ''active''"
    and "status row = ''active''"
    and "expected_match_candidate row = expected_match_candidate existing"
  shows "put mapping
           (row\<lparr>expected_mismatch_candidate := mm, rule := ru, A_src := a,
              QMSv5_01_src := q1, QMSv5_02_src := q2, map_job_id := j, map_source_file := f,
              map_source_sha256 := h, map_manual_override_flag := fl\<rparr>) False = Inr mapping"
  using assms by (simp add: put_present)

text \<open>
  C5. A pending row followed by an active row for its key leaves the active row in the
  mapping. A forced put always stores its row, whatever the key held, and the forced loop
  never fails. When \<open>parse_pc_override_fragments\<close> succeeds it returns one row per
  fragment, in order, each the override row of its fragment (active, under the fragment's
  key, flagged 1); the forced loop over these rows, and with it every successful merge of
  the three sources, leaves under the key of each fragment the row of a fragment of that
  key, the same or a later one.
\<close>

theorem merge_precedence:
  "(mapping (row_key row) = Some p \<and> status p = ''pending'' \<and> status row = ''active'' \<longrightarrow>
      put mapping row False = Inr (mapping(row_key row \<mapsto> row)))
   \<and> (mapping (row_key p) = None \<and> status p = ''pending'' \<and> status row = ''active''
        \<and> row_key row = row_key p \<longrightarrow>
      put_all mapping [p, row] False = Inr (mapping(row_key row \<mapsto> row)))
   \<and> put mapping row True = Inr (mapping(row_key row \<mapsto> row))
   \<and> (\<exists>m'. put_all mapping pc_rows True = Inr m'
        \<and> (\<forall>r\<in>set pc_rows. \<exists>r'\<in>set pc_rows. row_key r' = row_key r \<and> m' (row_key r) = Some r'))
   \<and> (\<forall>rows. parse_pc_override_fragments path sha frags = Inr rows \<longrightarrow>
        length rows = length frags
        \<and> (\<forall>i<length frags. is_override_row_of path sha (frags ! i) (rows ! i))
        \<and> (\<exists>m'. put_all mapping rows True = Inr m'
             \<and> (\<forall>i<length frags. \<exists>j<length frags. i \<le> j
                   \<and> row_key (rows ! j) = row_key (rows ! i)
                   \<and> m' (row_key (rows ! i)) = Some (rows ! j)))
        \<and> (\<forall>m. merge_sources iiia_rows iv_rows rows = Inr m \<longrightarrow>
             (\<forall>i<length frags. \<exists>j<length frags. i \<le> j
                   \<and> row_key (rows ! j) = row_key (rows ! i)
                   \<and> m (row_key (rows ! i)) = Some (rows ! j))))"
proof (intro conjI)
  show "mapping (row_key row) = Some p \<and> status p = ''pending'' \<and> status row = ''active'' \<longrightarrow>
      put mapping row False = Inr (mapping(row_key row \<mapsto> row))"
    by (simp add: put_present)
  show "mapping (row_key p) = None \<and> status p = ''pending'' \<and> status row = ''active''
        \<and> row_key row = row_key p \<longrightarrow>
      put_all mapping [p, row] False = Inr (mapping(row_key row \<mapsto> row))"
    by (simp add: put_absent put_present)
  show "put mapping row True = Inr (mapping(row_key row \<mapsto> row))"
    by (rule put_force)
  show "\<exists>m'. put_all mapping pc_rows True = Inr m'
        \<and> (\<forall>r\<in>set pc_rows. \<exists>r'\<in>set pc_rows. row_key r' = row_key r \<and> m' (row_key r) = Some r')"
    using foldl_upd_last_wins [of _ pc_rows mapping]
    by (simp add: put_all_force)
  show "\<forall>rows. parse_pc_override_fragments path sha frags = Inr rows \<longrightarrow>
        length rows = length frags
        \<and> (\<forall>i<length frags. is_override_row_of path sha (frags ! i) (rows ! i))
        \<and> (\<exists>m'. put_all mapping rows True = Inr m'
             \<and> (\<forall>i<length frags. \<exists>j<length frags. i \<le> j
                   \<and> row_key (rows ! j) = row_key (rows ! i)
                   \<and> m' (row_key (rows ! i)) = Some (rows ! j)))
        \<and> (\<forall>m. merge_sources iiia_rows iv_rows rows = Inr m \<longrightarrow>
             (\<forall>i<length frags. \<exists>j<length frags. i \<le> j
                   \<and> row_key (rows ! j) = row_key (rows ! i)
                   \<and> m (row_key (rows ! i)) = Some (rows ! j)))"
  proof (rule allI, rule impI)
    fix rows
    assume "parse_pc_override_fragments path sha frags = Inr rows"
    then have "pc_override_rows path sha frags = Inr rows"
      by (simp add: parse_pc_override_fragments_def split: if_splits)
    from pc_override_rows_nth [OF this] have len: "length rows = length frags"
      and nth: "\<forall>i<length frags. is_override_row_of path sha (frags ! i) (rows ! i)"
      by simp_all
    have idx: "\<forall>i<length frags. \<exists>j<length frags. i \<le> j
        \<and> row_key (rows ! j) = row_key (rows ! i)
        \<and> foldl (\<lambda>m r. m(row_key r \<mapsto> r)) m0 rows (row_key (rows ! i)) = Some (rows ! j)" for m0
      using put_all_force_index [of _ rows m0] len by simp
    have "\<exists>m'. put_all mapping rows True = Inr m'
        \<and> (\<forall>i<length frags. \<exists>j<length frags. i \<le> j
              \<and> row_key (rows ! j) = row_key (rows ! i)
              \<and> m' (row_key (rows ! i)) = Some (rows ! j))"
      using idx [of mapping] by (simp add: put_all_force)
    moreover have "\<forall>m. merge_sources iiia_rows iv_rows rows = Inr m \<longrightarrow>
        (\<forall>i<length frags. \<exists>j<length frags. i \<le> j
              \<and> row_key (rows ! j) = row_key (rows ! i)
              \<and> m (row_key (rows ! i)) = Some (rows ! j))"
    proof (rule allI, rule impI)
      fix m
      assume "merge_sources iiia_rows iv_rows rows = Inr m"
      from merge_sources_last_stage [OF this] obtain m2
        where "m = foldl (\<lambda>m r. m(row_key r \<mapsto> r)) m2 rows"
        by blast
      with idx [of m2] show "\<forall>i<length frags. \<exists>j<length frags. i \<le> j
              \<and> row_key (rows ! j) = row_key (rows ! i)
              \<and> m (row_key (rows ! i)) = Some (rows ! j)"
        by simp
    qed
    ultimately show "length rows = length frags
        \<and> (\<forall>i<length frags. is_override_row_of path sha (frags ! i) (rows ! i))
        \<and> (\<exists>m'. put_all mapping rows True = Inr m'
             \<and> (\<forall>i<length frags. \<exists>j<length frags. i \<le> j
                   \<and> row_key (rows ! j) = row_key (rows ! i)
                   \<and> m' (row_key (rows ! i)) = Some (rows ! j)))
        \<and> (\<forall>m. merge_sources iiia_rows iv_rows rows = Inr m \<longrightarrow>
             (\<forall>i<length frags. \<exists>j<length frags. i \<le> j
                   \<and> row_key (rows ! j) = row_key (rows ! i)
                   \<and> m (row_key (rows ! i)) = Some (rows ! j)))"
      using len nth by blast
  qed
qed

section \<open>Merge engine on the example rows\<close>

lemma example_keys:
  "row_key example_active = (''Node03_HVT_A_COMPLETED'', ''Positive_Controls'', ''PC1'')"
  "row_key example_pending = row_key example_active"
  "row_key example_conflicting = row_key example_active"
  "row_key example_override = row_key example_active"
  "row_key example_wildcard = (''ALL'', ''Positive_Controls'', ''PC1'')"
  by (simp_all add: row_key_def example_active_def example_pending_def example_conflicting_def
        example_override_def example_wildcard_def)

lemma example_status:
  "status example_active = ''active''"
  "status example_pending = ''pending''"
  "status example_conflicting = ''active''"
  "status example_override = ''active''"
  "status example_wildcard = ''active''"
  by (simp_all add: example_active_def example_pending_def example_conflicting_def
        example_override_def example_wildcard_def)

lemma example_expected_match:
  "expected_match_candidate example_active = ''QMSv5_02''"
  "expected_match_candidate example_conflicting = ''QMSv5_01''"
  by (simp_all add: example_active_def example_conflicting_def)

theorem put_active_on_active_witness:
  "put [row_key example_active \<mapsto> example_active] example_active False =
     Inr [row_key example_active \<mapsto> example_active]
   \<and> put [row_key example_active \<mapsto> example_active] example_conflicting False =
     Inl (Conflicting_active_mappings (row_key example_active))
   \<and> put_all Map.empty [example_active, example_active] False =
     put_all Map.empty [example_active] False"
  using
    put_active_on_active [of example_active "[row_key example_active \<mapsto> example_active]"]
    put_active_on_active [of example_conflicting "[row_key example_active \<mapsto> example_active]"]
    put_active_on_active [of example_active Map.empty]
  by (simp add: example_keys example_status example_expected_match)

theorem put_compares_expected_match_only_witness:
  "put [row_key example_active \<mapsto> example_active]
     (example_active\<lparr>expected_mismatch_candidate := ''QMSv5_02'', rule := ''A=PC -> match=pc'',
        A_src := ''PC_REEXPORT_A'', QMSv5_01_src := ''Q1'', QMSv5_02_src := ''PC_REEXPORT_2'',
        map_job_id := ''StageIIIA'', map_source_file := ''stage_iiia_map.md'',
        map_source_sha256 := ''7e'', map_manual_override_flag := Some 1\<rparr>) False =
     Inr [row_key example_active \<mapsto> example_active]"
  using put_compares_expected_match_only
    [where mapping = "[row_key example_active \<mapsto> example_active]"
       and row = example_active and existing = example_active]
  by (simp add: example_status)

lemma norm_group_IIIA: "norm_group ''IIIA_Positive_Controls'' = ''Positive_Controls''"
  by (simp add: norm_group_def strip_def is_space_def)

lemma determine_expected_match_scenario:
  "determine_expected_match ''BASELINE_A_SRC'' ''QMS_CANDIDATE_WORKING_TAMPER'' ''QMS_CANDIDATE_NORMAL'' =
     Inr (''QMSv5_02'', ''QMSv5_01'', ''A=BASELINE -> match=non-tamper'')"
  by (simp add: determine_expected_match_unfold strip_labels a_type_BASELINE_A_SRC
        looks_tamper_WORKING_TAMPER looks_tamper_NORMAL)

lemma example_keys_2:
  "row_key example_override_2 = (''Node03_HVT_A_COMPLETED'', ''Positive_Controls'', ''PC2'')"
  "row_key example_override_2 \<noteq> row_key example_active"
  by (simp_all add: row_key_def example_override_2_def example_override_def example_active_def)

lemma norm_group_Positive_Controls: "norm_group ''Positive_Controls'' = ''Positive_Controls''"
  by (simp add: norm_group_def strip_def is_space_def)

lemma determine_expected_match_scenario_2:
  "determine_expected_match ''BASELINE_A_SRC'' ''QMS_CANDIDATE_NORMAL'' ''QMS_CANDIDATE_WORKING_TAMPER'' =
     Inr (''QMSv5_01'', ''QMSv5_02'', ''A=BASELINE -> match=non-tamper'')"
  by (simp add: determine_expected_match_unfold strip_labels a_type_BASELINE_A_SRC
        looks_tamper_WORKING_TAMPER looks_tamper_NORMAL)

lemma parse_example_fragments:
  "parse_pc_override_fragments ''node03_pc_override.md'' ''9c''
     [example_fragment, example_fragment_2] = Inr [example_override, example_override_2]"
  by (simp add: parse_pc_override_fragments_def example_fragment_def example_fragment_2_def
        norm_group_IIIA norm_group_Positive_Controls determine_expected_match_scenario
        determine_expected_match_scenario_2 example_override_2_def example_override_def
        example_active_def Let_def)

theorem merge_precedence_witness:
  "put [row_key example_active \<mapsto> example_pending] example_active False =
     Inr [row_key example_active \<mapsto> example_active]
   \<and> put_all Map.empty [example_pending, example_active] False =
     Inr [row_key example_active \<mapsto> example_active]
   \<and> put [row_key example_active \<mapsto> example_conflicting] example_override True =
     Inr [row_key example_active \<mapsto> example_override]
   \<and> parse_pc_override_fragments ''node03_pc_override.md'' ''9c''
       [example_fragment, example_fragment_2] = Inr [example_override, example_override_2]
   \<and> is_override_row_of ''node03_pc_override.md'' ''9c'' example_fragment example_override
   \<and> is_override_row_of ''node03_pc_override.md'' ''9c'' example_fragment_2 example_override_2
   \<and> (\<exists>m'. put_all [row_key example_active \<mapsto> example_conflicting]
              [example_override, example_override_2] True = Inr m'
        \<and> m' (row_key example_override) = Some example_override
        \<and> m' (row_key example_override_2) = Some example_override_2)"
proof -
  let ?rows = "[example_override, example_override_2]"
  note a = merge_precedence
    [where mapping = "[row_key example_active \<mapsto> example_pending]"
       and row = example_active and p = example_pending]
  note b = merge_precedence
    [where mapping = Map.empty and row = example_active and p = example_pending]
  note c = merge_precedence
    [where mapping = "[row_key example_active \<mapsto> example_conflicting]"
       and row = example_override and path = "''node03_pc_override.md''" and sha = "''9c''"
       and frags = "[example_fragment, example_fragment_2]" and pc_rows = "[]"]
  have 1: "put [row_key example_active \<mapsto> example_pending] example_active False =
     Inr [row_key example_active \<mapsto> example_active]"
    using a by (simp add: example_status)
  have 2: "put_all Map.empty [example_pending, example_active] False =
     Inr [row_key example_active \<mapsto> example_active]"
    using b by (simp add: example_keys(2) example_status)
  have 3: "put [row_key example_active \<mapsto> example_conflicting] example_override True =
     Inr [row_key example_active \<mapsto> example_override]"
    using c by (simp add: example_keys(4))
  from c have d: "\<forall>rows. parse_pc_override_fragments ''node03_pc_override.md'' ''9c''
        [example_fragment, example_fragment_2] = Inr rows \<longrightarrow>
      (\<forall>i<length [example_fragment, example_fragment_2].
          is_override_row_of ''node03_pc_override.md'' ''9c''
            ([example_fragment, example_fragment_2] ! i) (rows ! i))
      \<and> (\<exists>m'. put_all [row_key example_active \<mapsto> example_conflicting] rows True = Inr m'
           \<and> (\<forall>i<length [example_fragment, example_fragment_2].
                 \<exists>j<length [example_fragment, example_fragment_2]. i \<le> j
                   \<and> row_key (rows ! j) = row_key (rows ! i)
                   \<and> m' (row_key (rows ! i)) = Some (rows ! j)))"
    by blast
  from d parse_example_fragments have
    e: "\<forall>i<length [example_fragment, example_fragment_2].
          is_override_row_of ''node03_pc_override.md'' ''9c''
            ([example_fragment, example_fragment_2] ! i) (?rows ! i)"
    and f: "\<exists>m'. put_all [row_key example_active \<mapsto> example_conflicting] ?rows True = Inr m'
           \<and> (\<forall>i<length [example_fragment, example_fragment_2].
                 \<exists>j<length [example_fragment, example_fragment_2]. i \<le> j
                   \<and> row_key (?rows ! j) = row_key (?rows ! i)
                   \<and> m' (row_key (?rows ! i)) = Some (?rows ! j))"
    by blast+
  from spec [OF e, of 0] have 4:
    "is_override_row_of ''node03_pc_override.md'' ''9c'' example_fragment example_override"
    by simp
  from spec [OF e, of 1] have 5:
    "is_override_row_of ''node03_pc_override.md'' ''9c'' example_fragment_2 example_override_2"
    by simp
  from f obtain m' where
    m: "put_all [row_key example_active \<mapsto> example_conflicting] ?rows True = Inr m'"
    and g: "\<forall>i<length [example_fragment, example_fragment_2].
              \<exists>j<length [example_fragment, example_fragment_2]. i \<le> j
                \<and> row_key (?rows ! j) = row_key (?rows ! i)
                \<and> m' (row_key (?rows ! i)) = Some (?rows ! j)"
    by blast
  from spec [OF g, of 0] have "\<exists>j<Suc (Suc 0). row_key (?rows ! j) = row_key (?rows ! 0)
      \<and> m' (row_key (?rows ! 0)) = Some (?rows ! j)"
    by simp
  then obtain j0 where "j0 < 2"
    and k0: "row_key (?rows ! j0) = row_key (?rows ! 0)"
    and v0: "m' (row_key (?rows ! 0)) = Some (?rows ! j0)"
    by (auto simp: numeral_2_eq_2)
  have "j0 = 0"
  proof (rule ccontr)
    assume "j0 \<noteq> 0"
    with \<open>j0 < 2\<close> have "j0 = 1" by simp
    with k0 example_keys_2(2) example_keys(4) show False by simp
  qed
  with v0 have 6: "m' (row_key example_override) = Some example_override"
    by simp
  from spec [OF g, of 1] have "\<exists>j<Suc (Suc 0). Suc 0 \<le> j
      \<and> m' (row_key (?rows ! 1)) = Some (?rows ! j)"
    by auto
  then obtain j1 where "j1 < 2" and "1 \<le> j1"
    and v1: "m' (row_key (?rows ! 1)) = Some (?rows ! j1)"
    by (auto simp: numeral_2_eq_2)
  then have "j1 = 1"
    by simp
  with v1 have 7: "m' (row_key example_override_2) = Some example_override_2"
    by simp
  from m 6 7 have 8: "\<exists>m'. put_all [row_key example_active \<mapsto> example_conflicting] ?rows True = Inr m'
        \<and> m' (row_key example_override) = Some example_override
        \<and> m' (row_key example_override_2) = Some example_override_2"
    by blast
  from 1 2 3 parse_example_fragments 4 5 8 show ?thesis
    by (intro conjI)
qed

section \<open>Comparison reconciler\<close>

lemma reconcile_step_resolves:
  "reconcile_step mapping r =
     (if resolves_active mapping r then Inr (enrich r (the (lookup_row mapping r)))
      else Inl (key_node r))"
  by (auto simp: reconcile_step_def resolves_active_def lookup_row_def split: option.splits)

lemma resolves_active_lookup:
  "resolves_active mapping r = (\<exists>m. lookup_row mapping r = Some m \<and> status m = ''active'')"
  by (auto simp: resolves_active_def lookup_row_def split: option.splits)

lemma reconcile_loop_eq:
  "reconcile_loop mapping rs out_rows missing_map =
     (out_rows @ map (\<lambda>r. enrich r (the (lookup_row mapping r)))
                   (filter (resolves_active mapping) rs),
      missing_map @ map key_node (filter (\<lambda>r. \<not> resolves_active mapping r) rs))"
  by (induction rs arbitrary: out_rows missing_map) (simp_all add: reconcile_step_resolves)

lemma missing_set:
  "set (snd (reconcile_loop mapping rs [] [])) =
     key_node ` {r \<in> set rs. \<not> resolves_active mapping r}"
  by (auto simp: reconcile_loop_eq)

lemma reconcile_all_resolved:
  assumes "\<forall>r\<in>set rs. resolves_active mapping r" and "rs \<noteq> []"
  shows "reconcile mapping rs = Inr (map (\<lambda>r. enrich r (the (lookup_row mapping r))) rs)"
proof -
  from assms have "filter (resolves_active mapping) rs = rs"
    and "filter (\<lambda>r. \<not> resolves_active mapping r) rs = []"
    by (simp_all add: filter_empty_conv)
  with assms(2) show ?thesis
    by (simp add: reconcile_def reconcile_loop_eq)
qed

lemma reconcile_Inr_resolved:
  assumes "reconcile mapping rs = Inr out"
  shows "(\<forall>r\<in>set rs. resolves_active mapping r) \<and> rs \<noteq> []"
proof -
  from assms have "filter (\<lambda>r. \<not> resolves_active mapping r) rs = []" and "rs \<noteq> []"
    by (simp_all add: reconcile_def reconcile_loop_eq split: if_splits)
  then show ?thesis
    by (simp add: filter_empty_conv)
qed

lemma reconcile_unresolved:
  assumes "r \<in> set rs" and "\<not> resolves_active mapping r"
  shows "reconcile mapping rs =
           Inl (Missing_active_blinding_mappings
                  (card (key_node ` {r \<in> set rs. \<not> resolves_active mapping r}))
                  (take 8 (sorted_list_of_set
                     (key_node ` {r \<in> set rs. \<not> resolves_active mapping r}))))"
proof -
  let ?miss = "map key_node (filter (\<lambda>r. \<not> resolves_active mapping r) rs)"
  have set: "set ?miss = key_node ` {r \<in> set rs. \<not> resolves_active mapping r}"
    by auto
  from assms have "key_node r \<in> set ?miss"
    by auto
  then have ne: "?miss \<noteq> []"
    by (metis empty_iff empty_set)
  have "sort (remdups ?miss) = sorted_list_of_set (set ?miss)"
    by (rule sorted_list_of_set_sort_remdups [symmetric])
  then have u: "sort (remdups ?miss) =
      sorted_list_of_set (key_node ` {r \<in> set rs. \<not> resolves_active mapping r})"
    by (simp only: set)
  from assms(1) have "rs \<noteq> []"
    by auto
  then have "reconcile mapping rs =
      Inl (Missing_active_blinding_mappings (length (sort (remdups ?miss)))
             (take 8 (sort (remdups ?miss))))"
    using ne by (simp add: reconcile_def reconcile_loop_eq Let_def)
  then show ?thesis
    by (simp only: u) simp
qed

text \<open>
  C6, amended. If the comparison dataset is not empty and every comparison record
  resolves to an active row (its node-specific key holds one, or that key is absent and
  the wildcard key holds one), reconciliation succeeds with one enriched record per input
  record, in input order, each built from the row its record resolves to, and no key is
  recorded as missing.
\<close>

theorem reconcile_complete:
  assumes "comp_rows \<noteq> []" and "\<forall>r\<in>set comp_rows. resolves_active mapping r"
  shows "\<exists>out. reconcile mapping comp_rows = Inr out
           \<and> length out = length comp_rows
           \<and> (\<forall>i<length comp_rows. \<exists>m. lookup_row mapping (comp_rows ! i) = Some m
                 \<and> status m = ''active'' \<and> out ! i = enrich (comp_rows ! i) m)
           \<and> snd (reconcile_loop mapping comp_rows [] []) = []"
proof -
  let ?out = "map (\<lambda>r. enrich r (the (lookup_row mapping r))) comp_rows"
  have "reconcile mapping comp_rows = Inr ?out"
    using assms(2,1) by (rule reconcile_all_resolved)
  moreover have "\<exists>m. lookup_row mapping (comp_rows ! i) = Some m
      \<and> status m = ''active'' \<and> ?out ! i = enrich (comp_rows ! i) m"
    if "i < length comp_rows" for i
  proof -
    from that assms(2) have "resolves_active mapping (comp_rows ! i)"
      by simp
    then obtain m where "lookup_row mapping (comp_rows ! i) = Some m" and "status m = ''active''"
      unfolding resolves_active_lookup by blast
    with that show ?thesis
      by simp
  qed
  moreover have "snd (reconcile_loop mapping comp_rows [] []) = []"
    using assms(2) by (simp add: reconcile_loop_eq filter_empty_conv)
  ultimately show ?thesis
    by simp
qed

text \<open>
  C3, amended. If some comparison record does not resolve to an active row, the
  reconciliation fails and returns no records; the failure carries the number of distinct
  missing keys and the first eight of them in sorted order, which is every missing key
  when there are at most eight.
\<close>

theorem reconcile_fail_closed:
  assumes "r \<in> set comp_rows" and "\<not> resolves_active mapping r"
  shows "\<exists>ks. reconcile mapping comp_rows =
              Inl (Missing_active_blinding_mappings
                     (card (key_node ` {r \<in> set comp_rows. \<not> resolves_active mapping r})) ks)
           \<and> ks = take 8 (sorted_list_of_set
                     (key_node ` {r \<in> set comp_rows. \<not> resolves_active mapping r}))
           \<and> sorted ks \<and> distinct ks
           \<and> set ks \<subseteq> key_node ` {r \<in> set comp_rows. \<not> resolves_active mapping r}
           \<and> (card (key_node ` {r \<in> set comp_rows. \<not> resolves_active mapping r}) \<le> 8 \<longrightarrow>
                set ks = key_node ` {r \<in> set comp_rows. \<not> resolves_active mapping r})"
proof -
  let ?K = "key_node ` {r \<in> set comp_rows. \<not> resolves_active mapping r}"
  let ?ks = "take 8 (sorted_list_of_set ?K)"
  have fin: "finite ?K"
    by simp
  have "reconcile mapping comp_rows = Inl (Missing_active_blinding_mappings (card ?K) ?ks)"
    using assms by (rule reconcile_unresolved)
  moreover have "sorted ?ks"
    by (simp add: sorted_wrt_take)
  moreover have "distinct ?ks"
    by simp
  moreover have "set ?ks \<subseteq> ?K"
    using fin set_take_subset [of 8 "sorted_list_of_set ?K"] by simp
  moreover have "set ?ks = ?K" if "card ?K \<le> 8"
  proof -
    from that have "length (sorted_list_of_set ?K) \<le> 8"
      by simp
    then have "?ks = sorted_list_of_set ?K"
      by simp
    with fin show ?thesis
      by simp
  qed
  ultimately show ?thesis
    by blast
qed

text \<open>
  C10. A comparison record whose own key holds a pending row is looked up to that row
  and recorded as missing, whatever the mapping holds under the wildcard key, an active
  row included; the reconciliation then fails.
\<close>

theorem pending_node_row_shadows_wildcard:
  assumes "r \<in> set comp_rows"
    and "mapping (key_node r) = Some p"
    and "status p = ''pending''"
  shows "lookup_row mapping r = Some p
       \<and> reconcile_step mapping r = Inl (key_node r)
       \<and> key_node r \<in> set (snd (reconcile_loop mapping comp_rows [] []))
       \<and> (\<exists>n ks. reconcile mapping comp_rows = Inl (Missing_active_blinding_mappings n ks))"
proof -
  from assms(2) have l: "lookup_row mapping r = Some p"
    by (simp add: lookup_row_def)
  with assms(3) have n: "\<not> resolves_active mapping r"
    by (simp add: resolves_active_lookup)
  then have "reconcile_step mapping r = Inl (key_node r)"
    by (simp add: reconcile_step_resolves)
  moreover from n assms(1) have "key_node r \<in> set (snd (reconcile_loop mapping comp_rows [] []))"
    unfolding missing_set by blast
  moreover from reconcile_unresolved [OF assms(1) n]
  have "\<exists>n ks. reconcile mapping comp_rows = Inl (Missing_active_blinding_mappings n ks)"
    by blast
  ultimately show ?thesis
    using l by simp
qed

lemma enrich_other_field:
  "k \<notin> set new_fields \<Longrightarrow> enrich r m k = map_option Str (r k)"
  by (simp add: enrich_def new_fields_def Let_def map_add_def)

lemma dom_enrich: "dom (enrich r m) = dom r \<union> set new_fields"
  by (auto simp: enrich_def new_fields_def Let_def)

text \<open>
  In a successful reconciliation every enriched record has the fields of its input record
  and the fourteen added fields, and every input field whose name is not one of the
  fourteen added names keeps its value.
\<close>

lemma enrich_keeps_other_fields:
  assumes "reconcile mapping comp_rows = Inr out" and "i < length comp_rows"
  shows "length out = length comp_rows
       \<and> dom (out ! i) = dom (comp_rows ! i) \<union> set new_fields
       \<and> (\<forall>k. k \<notin> set new_fields \<longrightarrow> (out ! i) k = map_option Str ((comp_rows ! i) k))"
proof -
  from reconcile_Inr_resolved [OF assms(1)]
  have "\<forall>r\<in>set comp_rows. resolves_active mapping r" and "comp_rows \<noteq> []"
    by simp_all
  then have "reconcile mapping comp_rows =
      Inr (map (\<lambda>r. enrich r (the (lookup_row mapping r))) comp_rows)"
    by (rule reconcile_all_resolved)
  with assms(1) have "out = map (\<lambda>r. enrich r (the (lookup_row mapping r))) comp_rows"
    by simp
  with assms(2) show ?thesis
    by (simp add: enrich_other_field dom_enrich)
qed

section \<open>Reconciler on the example rows\<close>

lemma example_record_keys:
  "key_node example_record = row_key example_active"
  "key_all example_record = row_key example_wildcard"
  "key_node example_record_reviewed = row_key example_active"
  "key_all example_record_reviewed = row_key example_wildcard"
  by (simp_all add: key_node_def key_all_def example_record_def example_record_reviewed_def
        get_or_empty_def strip_def is_space_def norm_group_def example_keys)

text \<open>A cell padded with a no-break space gives the same key.\<close>

lemma key_node_strips_no_break_space:
  "key_node (example_record(''arm'' \<mapsto> ''PC1'' @ [CHR 0xA0])) = row_key example_active"
  by (simp add: key_node_def example_record_def get_or_empty_def strip_def is_space_def
        norm_group_def example_keys)

lemma example_keys_differ: "row_key example_wildcard \<noteq> row_key example_active"
  by (simp add: example_keys)

lemma unmapped_record_keys:
  "key_node (unmapped_record ''1'') = (''N'', ''G'', ''1'')"
  "key_node (unmapped_record ''2'') = (''N'', ''G'', ''2'')"
  "key_node (unmapped_record ''3'') = (''N'', ''G'', ''3'')"
  "key_node (unmapped_record ''4'') = (''N'', ''G'', ''4'')"
  "key_node (unmapped_record ''5'') = (''N'', ''G'', ''5'')"
  "key_node (unmapped_record ''6'') = (''N'', ''G'', ''6'')"
  "key_node (unmapped_record ''7'') = (''N'', ''G'', ''7'')"
  "key_node (unmapped_record ''8'') = (''N'', ''G'', ''8'')"
  "key_node (unmapped_record ''9'') = (''N'', ''G'', ''9'')"
  by (simp_all add: key_node_def unmapped_record_def get_or_empty_def strip_def is_space_def
        norm_group_def)

lemma unmapped_record_wildcard_keys:
  "key_all (unmapped_record ''1'') = (''ALL'', ''G'', ''1'')"
  "key_all (unmapped_record ''2'') = (''ALL'', ''G'', ''2'')"
  "key_all (unmapped_record ''3'') = (''ALL'', ''G'', ''3'')"
  "key_all (unmapped_record ''4'') = (''ALL'', ''G'', ''4'')"
  "key_all (unmapped_record ''5'') = (''ALL'', ''G'', ''5'')"
  "key_all (unmapped_record ''6'') = (''ALL'', ''G'', ''6'')"
  "key_all (unmapped_record ''7'') = (''ALL'', ''G'', ''7'')"
  "key_all (unmapped_record ''8'') = (''ALL'', ''G'', ''8'')"
  "key_all (unmapped_record ''9'') = (''ALL'', ''G'', ''9'')"
  by (simp_all add: key_all_def unmapped_record_def get_or_empty_def strip_def is_space_def
        norm_group_def)

lemma reconcile_step_unmapped:
  assumes "fst (snd (key_node r)) = ''G''" and "fst (snd (key_all r)) = ''G''"
  shows "reconcile_step [row_key example_override \<mapsto> example_override] r = Inl (key_node r)"
proof -
  have "key_node r \<noteq> row_key example_active" and "key_all r \<noteq> row_key example_active"
    using assms by (auto simp: example_keys)
  then show ?thesis
    by (simp add: reconcile_step_def lookup_row_def example_keys(4))
qed

lemma sort_nine_keys:
  "sort [(''N'', ''G'', ''9''), (''N'', ''G'', ''8''), (''N'', ''G'', ''7''),
         (''N'', ''G'', ''6''), (''N'', ''G'', ''5''), (''N'', ''G'', ''4''),
         (''N'', ''G'', ''3''), (''N'', ''G'', ''2''), (''N'', ''G'', ''1'' :: string)] =
   [(''N'', ''G'', ''1''), (''N'', ''G'', ''2''), (''N'', ''G'', ''3''),
    (''N'', ''G'', ''4''), (''N'', ''G'', ''5''), (''N'', ''G'', ''6''),
    (''N'', ''G'', ''7''), (''N'', ''G'', ''8''), (''N'', ''G'', ''9'')]"
  by (simp add: less_eq_list_code less_list_code)

text \<open>
  C3, as the claim states it, fails: with nine distinct missing keys the failure names
  eight of them; the key of the row of arm 9 is missing and is not in the report. The
  mapping holds the override row of the example arm.
\<close>

theorem reconcile_fail_closed_counterexample:
  "reconcile [row_key example_override \<mapsto> example_override] nine_unmapped_rows =
     Inl (Missing_active_blinding_mappings 9 first_eight_keys)
   \<and> reconcile_step [row_key example_override \<mapsto> example_override] (unmapped_record ''9'') =
     Inl (''N'', ''G'', ''9'')
   \<and> (''N'', ''G'', ''9'') \<notin> set first_eight_keys"
proof -
  let ?M = "[row_key example_override \<mapsto> example_override]"
  have "reconcile_loop ?M nine_unmapped_rows [] [] =
      ([], [(''N'', ''G'', ''9''), (''N'', ''G'', ''8''), (''N'', ''G'', ''7''),
            (''N'', ''G'', ''6''), (''N'', ''G'', ''5''), (''N'', ''G'', ''4''),
            (''N'', ''G'', ''3''), (''N'', ''G'', ''2''), (''N'', ''G'', ''1'')])"
    by (simp add: nine_unmapped_rows_def reconcile_step_unmapped unmapped_record_keys
          unmapped_record_wildcard_keys)
  then have "reconcile ?M nine_unmapped_rows =
      Inl (Missing_active_blinding_mappings 9 first_eight_keys)"
    by (simp add: reconcile_def nine_unmapped_rows_def sort_nine_keys first_eight_keys_def
          del: sort_key_simps)
  moreover have "reconcile_step ?M (unmapped_record ''9'') = Inl (''N'', ''G'', ''9'')"
    by (simp add: reconcile_step_unmapped unmapped_record_keys unmapped_record_wildcard_keys)
  moreover have "(''N'', ''G'', ''9'') \<notin> set first_eight_keys"
    by (simp add: first_eight_keys_def)
  ultimately show ?thesis
    by (intro conjI)
qed

theorem reconcile_fail_closed_witness:
  "unmapped_record ''1'' \<in> set [example_record, unmapped_record ''1'']
   \<and> \<not> resolves_active [row_key example_active \<mapsto> example_active] (unmapped_record ''1'')
   \<and> reconcile [row_key example_active \<mapsto> example_active]
        [example_record, unmapped_record ''1''] =
       Inl (Missing_active_blinding_mappings 1 [(''N'', ''G'', ''1'')])"
proof -
  let ?M = "[row_key example_active \<mapsto> example_active]"
  have r: "resolves_active ?M example_record"
    by (simp add: resolves_active_def example_record_keys example_status)
  have n: "\<not> resolves_active ?M (unmapped_record ''1'')"
    by (simp add: resolves_active_def unmapped_record_keys key_all_def example_keys)
  have i: "unmapped_record ''1'' \<in> set [example_record, unmapped_record ''1'']"
    by simp
  have "{x \<in> set [example_record, unmapped_record ''1'']. \<not> resolves_active ?M x} =
      {unmapped_record ''1''}"
    using r n by auto
  with reconcile_fail_closed [OF i n] have
    "reconcile ?M [example_record, unmapped_record ''1''] =
       Inl (Missing_active_blinding_mappings 1 [(''N'', ''G'', ''1'')])"
    by (simp add: unmapped_record_keys)
  with i n show ?thesis
    by (intro conjI)
qed

text \<open>
  C6, as the claim states it, fails on the comparison dataset without rows: every one of
  its records resolves, there being none, and \<open>main\<close> stops with status 2 instead of
  producing a dataset.
\<close>

theorem reconcile_complete_counterexample:
  "reconcile
     [row_key example_wildcard \<mapsto> example_wildcard, row_key example_active \<mapsto> example_active]
     [] = Inl Comparisons_CSV_has_no_rows"
  by (simp add: reconcile_def)

theorem reconcile_complete_witness:
  "resolves_active
     [row_key example_wildcard \<mapsto> example_wildcard, row_key example_active \<mapsto> example_active]
     example_record
   \<and> resolves_active
     [row_key example_wildcard \<mapsto> example_wildcard, row_key example_active \<mapsto> example_active]
     (example_record(''node_id'' \<mapsto> ''Node02_HVT_A_COMPLETED''))
   \<and> (\<exists>out.
        reconcile
          [row_key example_wildcard \<mapsto> example_wildcard, row_key example_active \<mapsto> example_active]
          [example_record, example_record(''node_id'' \<mapsto> ''Node02_HVT_A_COMPLETED'')] = Inr out
        \<and> length out = 2
        \<and> out ! 0 = enrich example_record example_active
        \<and> out ! 1 =
            enrich (example_record(''node_id'' \<mapsto> ''Node02_HVT_A_COMPLETED'')) example_wildcard)"
proof -
  let ?M = "[row_key example_wildcard \<mapsto> example_wildcard, row_key example_active \<mapsto> example_active]"
  let ?r2 = "example_record(''node_id'' \<mapsto> ''Node02_HVT_A_COMPLETED'')"
  have k2: "key_node ?r2 = (''Node02_HVT_A_COMPLETED'', ''Positive_Controls'', ''PC1'')"
    "key_all ?r2 = row_key example_wildcard"
    by (simp_all add: key_node_def key_all_def example_record_def
          get_or_empty_def strip_def is_space_def norm_group_def example_keys)
  have l1: "lookup_row ?M example_record = Some example_active"
    by (simp add: lookup_row_def example_record_keys)
  have l2: "lookup_row ?M ?r2 = Some example_wildcard"
    by (simp add: lookup_row_def k2 example_keys)
  have h: "\<forall>r\<in>set [example_record, ?r2]. resolves_active ?M r"
    by (simp add: resolves_active_lookup l1 l2 example_status)
  have ne: "[example_record, ?r2] \<noteq> []"
    by simp
  from reconcile_complete [OF ne h] obtain out where
    o: "reconcile ?M [example_record, ?r2] = Inr out" and len: "length out = 2"
    and each: "\<forall>i<2. \<exists>m. lookup_row ?M ([example_record, ?r2] ! i) = Some m
                 \<and> status m = ''active'' \<and> out ! i = enrich ([example_record, ?r2] ! i) m"
    by auto
  from spec [OF each, of 0] have "\<exists>m. lookup_row ?M example_record = Some m
      \<and> status m = ''active'' \<and> out ! 0 = enrich example_record m"
    by simp
  then have o0: "out ! 0 = enrich example_record example_active"
    by (simp add: l1)
  from spec [OF each, of 1] have "\<exists>m. lookup_row ?M ?r2 = Some m
      \<and> status m = ''active'' \<and> out ! 1 = enrich ?r2 m"
    by simp
  then have o1: "out ! 1 = enrich ?r2 example_wildcard"
    by (simp add: l2)
  from h have "resolves_active ?M example_record" and "resolves_active ?M ?r2"
    by simp_all
  with o len o0 o1 show ?thesis
    by blast
qed

theorem pending_node_row_shadows_wildcard_witness:
  "[row_key example_wildcard \<mapsto> example_wildcard, row_key example_active \<mapsto> example_pending]
     (key_node example_record) = Some example_pending
   \<and> status example_pending = ''pending''
   \<and> [row_key example_wildcard \<mapsto> example_wildcard, row_key example_active \<mapsto> example_pending]
       (key_all example_record) = Some example_wildcard
   \<and> status example_wildcard = ''active''
   \<and> reconcile_step
       [row_key example_wildcard \<mapsto> example_wildcard, row_key example_active \<mapsto> example_pending]
       example_record = Inl (key_node example_record)
   \<and> (\<exists>n ks.
        reconcile
          [row_key example_wildcard \<mapsto> example_wildcard, row_key example_active \<mapsto> example_pending]
          [example_record] = Inl (Missing_active_blinding_mappings n ks))"
proof -
  let ?M = "[row_key example_wildcard \<mapsto> example_wildcard, row_key example_active \<mapsto> example_pending]"
  have p: "?M (key_node example_record) = Some example_pending"
    by (simp add: example_record_keys)
  have w: "?M (key_all example_record) = Some example_wildcard"
    by (simp add: example_record_keys example_keys_differ)
  have i: "example_record \<in> set [example_record]"
    by simp
  note t = pending_node_row_shadows_wildcard
    [where r = example_record and comp_rows = "[example_record]" and mapping = ?M
       and p = example_pending, OF i p example_status(2)]
  from t have s: "reconcile_step ?M example_record = Inl (key_node example_record)"
    by (elim conjE)
  from t have f: "\<exists>n ks. reconcile ?M [example_record] = Inl (Missing_active_blinding_mappings n ks)"
    by (elim conjE)
  from p example_status(2) w example_status(5) s f show ?thesis
    by (intro conjI)
qed

text \<open>
  C8. The enrichment is not additive on a comparison row that already has a column named
  like an added field: reconciled against the example row, the row whose column
  \<open>classification_correct\<close> reads \<open>unreviewed\<close> comes out with that column set to 0.
\<close>

theorem enrich_overwrites_same_named_column:
  "example_record_reviewed ''classification_correct'' = Some ''unreviewed''
   \<and> reconcile [row_key example_active \<mapsto> example_active] [example_record_reviewed] =
       Inr [enrich example_record_reviewed example_active]
   \<and> enrich example_record_reviewed example_active ''classification_correct'' = Some (Num 0)"
proof -
  let ?M = "[row_key example_active \<mapsto> example_active]"
  have l: "lookup_row ?M example_record_reviewed = Some example_active"
    by (simp add: lookup_row_def example_record_keys)
  then have "\<forall>r\<in>set [example_record_reviewed]. resolves_active ?M r"
    by (simp add: resolves_active_lookup example_status)
  moreover have "[example_record_reviewed] \<noteq> []"
    by simp
  ultimately have "reconcile ?M [example_record_reviewed] =
      Inr (map (\<lambda>r. enrich r (the (lookup_row ?M r))) [example_record_reviewed])"
    by (rule reconcile_all_resolved)
  with l have "reconcile ?M [example_record_reviewed] =
      Inr [enrich example_record_reviewed example_active]"
    by simp
  moreover have "example_record_reviewed ''classification_correct'' = Some ''unreviewed''"
    by (simp add: example_record_reviewed_def)
  moreover have "candidate_label_of example_record_reviewed = ''QMSv5_01''"
    by (simp add: candidate_label_of_def example_record_reviewed_def example_record_def
          get_or_empty_def strip_def is_space_def candidate_label_from_compare_folder_def
          suffix_to_prefix)
  then have "enrich example_record_reviewed example_active ''classification_correct'' = Some (Num 0)"
    by (simp add: enrich_def Let_def map_add_def example_expected_match
          example_record_reviewed_def example_record_def)
  ultimately show ?thesis
    by (intro conjI)
qed

end
